theory Spec2Isabelle
  imports Main "HOL-Library.Sublist"
begin

section \<open>The report tree and the Python values of \<^verbatim>\<open>main.py\<close>\<close>

text \<open>
  \<^verbatim>\<open>xmltodict.parse\<close> returns nested Python values: a \<^verbatim>\<open>dict\<close> for an element with
  attributes or children (insertion ordered, so an association list here), a \<^verbatim>\<open>list\<close> for
  repeated sibling elements, a \<^verbatim>\<open>str\<close> for text and attribute values, and \<^verbatim>\<open>None\<close> for
  an empty element. Strings are byte lists (UTF-8 for text beyond ASCII).
\<close>

datatype node =
    Str string
  | PyNone
  | Dict "(string \<times> node) list"
  | List "node list"

text \<open>
  The exceptions the program can meet. \<open>ValueError s\<close> is what \<^verbatim>\<open>float(s)\<close> raises on a
  string that is not a number; \<open>OSError\<close> is what the file system raises, with its
  message; \<open>LibraryError\<close> stands for whatever else the library raises, the XML parser
  above all (all of them subclasses of \<^verbatim>\<open>Exception\<close>).
\<close>

datatype pyerr =
    ValueError string
  | TypeError
  | AttributeError
  | KeyError
  | ZeroDivisionError
  | FileNotFoundError
  | OSError string
  | LibraryError string

text \<open>
  The four lists of \<^verbatim>\<open>metrics\<close>, under the keys the source gives them. The type \<open>'f\<close> is
  Python's \<^verbatim>\<open>float\<close>; the program only moves such values around and hands them to
  library functions, which are parameters of the model (see \<open>pylib\<close>).
\<close>

record 'f metrics =
  mccabe_cyclomatic_complexity :: "'f list"
  system_complexity :: "'f list"
  data_complexity :: "'f list"
  total_lines_of_code :: "'f list"

definition empty_metrics :: "'f metrics" where
  "empty_metrics =
     \<lparr>mccabe_cyclomatic_complexity = [], system_complexity = [],
      data_complexity = [], total_lines_of_code = []\<rparr>"

text \<open>An average is the integer \<^verbatim>\<open>0\<close> it was initialised to, or a float.\<close>

datatype 'f pynum = PyInt int | PyFloat 'f

record 'f results =
  total_methods :: nat
  avg_mccabe_cyclomatic_complexity :: "'f pynum"
  avg_system_complexity :: "'f pynum"
  avg_data_complexity :: "'f pynum"
  avg_total_lines_of_code :: "'f pynum"

text \<open>
  The library functions the program calls and this repository does not define:
  \<^verbatim>\<open>float\<close> on a string (\<open>None\<close> when it raises \<^verbatim>\<open>ValueError\<close>), \<^verbatim>\<open>xmltodict.parse\<close>,
  \<^verbatim>\<open>sum(xs) / len(xs)\<close> on a non-empty list of floats, \<^verbatim>\<open>min\<close>, \<^verbatim>\<open>max\<close>,
  \<^verbatim>\<open>statistics.median\<close> and \<^verbatim>\<open>statistics.stdev\<close> (which may raise), the format
  specification \<^verbatim>\<open>:.2f\<close>, and \<^verbatim>\<open>str\<close> of an exception.
\<close>

record 'f pylib =
  float_of :: "string \<Rightarrow> 'f option"
  xml_parse :: "string \<Rightarrow> pyerr + node"
  mean_of :: "'f list \<Rightarrow> 'f"
  min_of :: "'f list \<Rightarrow> 'f"
  max_of :: "'f list \<Rightarrow> 'f"
  median_of :: "'f list \<Rightarrow> pyerr + 'f"
  stdev_of :: "'f list \<Rightarrow> pyerr + 'f"
  format_2f :: "'f pynum \<Rightarrow> string"
  exc_str :: "pyerr \<Rightarrow> string"

section \<open>Python's operators on report values\<close>

text \<open>\<^verbatim>\<open>isinstance(v, list)\<close>, \<^verbatim>\<open>isinstance(v, dict)\<close>.\<close>

fun is_list :: "node \<Rightarrow> bool" where
  "is_list (List xs) = True"
| "is_list v = False"

fun is_dict :: "node \<Rightarrow> bool" where
  "is_dict (Dict kvs) = True"
| "is_dict v = False"

text \<open>\<^verbatim>\<open>if not isinstance(v, list): v = [v]\<close>, then iterated.\<close>

fun as_list :: "node \<Rightarrow> node list" where
  "as_list (List xs) = xs"
| "as_list v = [v]"

text \<open>
  \<^verbatim>\<open>k in v\<close> for a string \<open>k\<close>: a key test on a dict, a substring test on a string,
  an element test on a list, and a \<^verbatim>\<open>TypeError\<close> on \<^verbatim>\<open>None\<close>.
\<close>

fun py_contains :: "string \<Rightarrow> node \<Rightarrow> pyerr + bool" where
  "py_contains k (Dict kvs) = Inr (k \<in> set (map fst kvs))"
| "py_contains k (Str s) = Inr (sublist k s)"
| "py_contains k (List xs) = Inr (Str k \<in> set xs)"
| "py_contains k PyNone = Inl TypeError"

text \<open>\<^verbatim>\<open>v[k]\<close> for a string \<open>k\<close>: only a dict can be indexed by a string.\<close>

fun py_getitem :: "node \<Rightarrow> string \<Rightarrow> pyerr + node" where
  "py_getitem (Dict kvs) k = (case map_of kvs k of None \<Rightarrow> Inl KeyError | Some v \<Rightarrow> Inr v)"
| "py_getitem v k = Inl TypeError"

text \<open>\<^verbatim>\<open>v.get(k, d)\<close>: only a dict has the method.\<close>

fun py_get :: "node \<Rightarrow> string \<Rightarrow> node \<Rightarrow> pyerr + node" where
  "py_get (Dict kvs) k d = Inr (case map_of kvs k of None \<Rightarrow> d | Some v \<Rightarrow> v)"
| "py_get v k d = Inl AttributeError"

text \<open>\<^verbatim>\<open>float(v)\<close>: parses a string, and raises \<^verbatim>\<open>TypeError\<close> on anything else.\<close>

fun py_float :: "('f, 'z) pylib_scheme \<Rightarrow> node \<Rightarrow> pyerr + 'f" where
  "py_float lib (Str s) = (case float_of lib s of None \<Rightarrow> Inl (ValueError s) | Some x \<Rightarrow> Inr x)"
| "py_float lib v = Inl TypeError"

section \<open>The extractor\<close>

text \<open>
  The body of the innermost loop (source lines 41 to 59): one metric entry. The value is
  parsed only in the branch of a recognised name.
\<close>

definition process_metric ::
  "('f, 'z) pylib_scheme \<Rightarrow> node \<Rightarrow> 'f metrics \<Rightarrow> pyerr + 'f metrics" where
  "process_metric lib metric m =
     (case py_get metric ''@name'' (Str '''') of
        Inl e \<Rightarrow> Inl e
      | Inr metric_name \<Rightarrow>
         (case py_get metric ''@value'' (Str ''0'') of
            Inl e \<Rightarrow> Inl e
          | Inr metric_value \<Rightarrow>
             if metric_name = Str ''VG'' then
               (case py_float lib metric_value of
                  Inl e \<Rightarrow> Inl e
                | Inr x \<Rightarrow> Inr (m\<lparr>mccabe_cyclomatic_complexity :=
                                   mccabe_cyclomatic_complexity m @ [x]\<rparr>))
             else if metric_name = Str ''Ci'' then
               (case py_float lib metric_value of
                  Inl e \<Rightarrow> Inl e
                | Inr x \<Rightarrow> Inr (m\<lparr>system_complexity := system_complexity m @ [x]\<rparr>))
             else if metric_name = Str ''Di'' then
               (case py_float lib metric_value of
                  Inl e \<Rightarrow> Inl e
                | Inr x \<Rightarrow> Inr (m\<lparr>data_complexity := data_complexity m @ [x]\<rparr>))
             else if metric_name = Str ''TLOC'' then
               (case py_float lib metric_value of
                  Inl e \<Rightarrow> Inl e
                | Inr x \<Rightarrow> Inr (m\<lparr>total_lines_of_code := total_lines_of_code m @ [x]\<rparr>))
             else Inr m))"

text \<open>The loop \<^verbatim>\<open>for metric in method_metrics\<close>: the first exception ends it.\<close>

fun process_metrics ::
  "('f, 'z) pylib_scheme \<Rightarrow> node list \<Rightarrow> 'f metrics \<Rightarrow> pyerr + 'f metrics" where
  "process_metrics lib [] m = Inr m"
| "process_metrics lib (metric # rest) m =
     (case process_metric lib metric m of
        Inl e \<Rightarrow> Inl e
      | Inr m' \<Rightarrow> process_metrics lib rest m')"

text \<open>
  The body of \<^verbatim>\<open>for method in methods\<close> (source lines 34 to 59). The condition
  \<^verbatim>\<open>'Metrics' in method and 'Metric' in method['Metrics']\<close> is evaluated left to right, and
  each of its three operations can raise.
\<close>

definition process_method ::
  "('f, 'z) pylib_scheme \<Rightarrow> node \<Rightarrow> 'f metrics \<Rightarrow> pyerr + 'f metrics" where
  "process_method lib method m =
     (case py_contains ''Metrics'' method of
        Inl e \<Rightarrow> Inl e
      | Inr False \<Rightarrow> Inr m
      | Inr True \<Rightarrow>
         (case py_getitem method ''Metrics'' of
            Inl e \<Rightarrow> Inl e
          | Inr ms \<Rightarrow>
             (case py_contains ''Metric'' ms of
                Inl e \<Rightarrow> Inl e
              | Inr False \<Rightarrow> Inr m
              | Inr True \<Rightarrow>
                 (case py_getitem ms ''Metric'' of
                    Inl e \<Rightarrow> Inl e
                  | Inr method_metrics \<Rightarrow> process_metrics lib (as_list method_metrics) m))))"

fun process_methods ::
  "('f, 'z) pylib_scheme \<Rightarrow> node list \<Rightarrow> 'f metrics \<Rightarrow> pyerr + 'f metrics" where
  "process_methods lib [] m = Inr m"
| "process_methods lib (method # rest) m =
     (case process_method lib method m of
        Inl e \<Rightarrow> Inl e
      | Inr m' \<Rightarrow> process_methods lib rest m')"

text \<open>
  The part of a dict node's visit that looks at its own \<^verbatim>\<open>Method\<close> key (source lines 26
  to 59).
\<close>

definition visit_methods ::
  "('f, 'z) pylib_scheme \<Rightarrow> (string \<times> node) list \<Rightarrow> 'f metrics \<Rightarrow> pyerr + 'f metrics" where
  "visit_methods lib kvs m =
     (if ''Method'' \<in> set (map fst kvs) then
        (case map_of kvs ''Method'' of
           None \<Rightarrow> Inl KeyError
         | Some methods \<Rightarrow> process_methods lib (as_list methods) m)
      else Inr m)"

text \<open>
  \<^verbatim>\<open>extract_method_metrics\<close>, with the dictionary \<^verbatim>\<open>metrics\<close> it updates in place passed
  in and returned. \<open>extract_children\<close> is the loop over \<^verbatim>\<open>node.items()\<close> (source lines
  62 to 64) and \<open>extract_items\<close> the loop over a list (lines 67 and 68). The recursion
  follows the tree, so the walk of a tree always ends; the interpreter's limit on the
  depth of recursion is not part of the model.
\<close>

fun extract_method_metrics ::
    "('f, 'z) pylib_scheme \<Rightarrow> node \<Rightarrow> 'f metrics \<Rightarrow> pyerr + 'f metrics"
  and extract_children ::
    "('f, 'z) pylib_scheme \<Rightarrow> (string \<times> node) list \<Rightarrow> 'f metrics \<Rightarrow> pyerr + 'f metrics"
  and extract_items ::
    "('f, 'z) pylib_scheme \<Rightarrow> node list \<Rightarrow> 'f metrics \<Rightarrow> pyerr + 'f metrics" where
  "extract_method_metrics lib (Dict kvs) m =
     (case visit_methods lib kvs m of
        Inl e \<Rightarrow> Inl e
      | Inr m' \<Rightarrow> extract_children lib kvs m')"
| "extract_method_metrics lib (List xs) m = extract_items lib xs m"
| "extract_method_metrics lib (Str s) m = Inr m"
| "extract_method_metrics lib PyNone m = Inr m"
| "extract_children lib [] m = Inr m"
| "extract_children lib ((key, val) # rest) m =
     (if is_dict val \<or> is_list val then
        (case extract_method_metrics lib val m of
           Inl e \<Rightarrow> Inl e
         | Inr m' \<Rightarrow> extract_children lib rest m')
      else extract_children lib rest m)"
| "extract_items lib [] m = Inr m"
| "extract_items lib (item # rest) m =
     (case extract_method_metrics lib item m of
        Inl e \<Rightarrow> Inl e
      | Inr m' \<Rightarrow> extract_items lib rest m')"

section \<open>The aggregation\<close>

text \<open>
  \<^verbatim>\<open>sum(xs) / len(xs)\<close>: the sum of an empty list is the integer \<^verbatim>\<open>0\<close> and the division
  by its length raises \<^verbatim>\<open>ZeroDivisionError\<close>; on a non-empty list of floats nothing raises.
\<close>

definition py_avg :: "('f, 'z) pylib_scheme \<Rightarrow> 'f list \<Rightarrow> pyerr + 'f pynum" where
  "py_avg lib xs = (if length xs = 0 then Inl ZeroDivisionError else Inr (PyFloat (mean_of lib xs)))"

text \<open>Source lines 74 to 98: the four averages are computed in this order.\<close>

definition compute_results :: "('f, 'z) pylib_scheme \<Rightarrow> 'f metrics \<Rightarrow> pyerr + 'f results" where
  "compute_results lib metrics =
     (let results = \<lparr>total_methods = length (mccabe_cyclomatic_complexity metrics),
                     avg_mccabe_cyclomatic_complexity = PyInt 0,
                     avg_system_complexity = PyInt 0,
                     avg_data_complexity = PyInt 0,
                     avg_total_lines_of_code = PyInt 0\<rparr>
      in if total_methods results > 0 then
           (case py_avg lib (mccabe_cyclomatic_complexity metrics) of
              Inl e \<Rightarrow> Inl e
            | Inr a1 \<Rightarrow>
           (case py_avg lib (system_complexity metrics) of
              Inl e \<Rightarrow> Inl e
            | Inr a2 \<Rightarrow>
           (case py_avg lib (data_complexity metrics) of
              Inl e \<Rightarrow> Inl e
            | Inr a3 \<Rightarrow>
           (case py_avg lib (total_lines_of_code metrics) of
              Inl e \<Rightarrow> Inl e
            | Inr a4 \<Rightarrow>
               Inr (results\<lparr>avg_mccabe_cyclomatic_complexity := a1,
                            avg_system_complexity := a2,
                            avg_data_complexity := a3,
                            avg_total_lines_of_code := a4\<rparr>)))))
         else Inr results)"

text \<open>
  What a path names, as the program can observe it:
  \<^item> \<open>Missing\<close>: nothing, and \<^verbatim>\<open>Path.exists()\<close> returns \<^verbatim>\<open>False\<close>;
  \<^item> \<open>Unreachable e\<close>: nothing that can be reached, and the \<^verbatim>\<open>stat\<close> call behind
    \<^verbatim>\<open>Path.exists()\<close> raises \<open>e\<close>, which \<^verbatim>\<open>exists\<close> lets through (an \<^verbatim>\<open>OSError\<close> for a name
    longer than the system allows, or for a directory on the way that may not be searched);
  \<^item> \<open>Readable s\<close>: a file that is read as the UTF-8 text \<open>s\<close>;
  \<^item> \<open>Unreadable e\<close>: something that exists and whose \<^verbatim>\<open>open\<close> or \<^verbatim>\<open>read\<close> raises \<open>e\<close>
    (a directory, a file without permission, bytes that are not UTF-8).
\<close>

datatype file_state = Missing | Unreachable pyerr | Readable string | Unreadable pyerr

type_synonym filesystem = "string \<Rightarrow> file_state"

text \<open>\<^verbatim>\<open>xml_file.exists()\<close> (source line 146).\<close>

fun path_exists :: "file_state \<Rightarrow> pyerr + bool" where
  "path_exists Missing = Inr False"
| "path_exists (Unreachable e) = Inl e"
| "path_exists (Readable s) = Inr True"
| "path_exists (Unreadable e) = Inr True"

definition parse_jasome_xml ::
  "('f, 'z) pylib_scheme \<Rightarrow> filesystem \<Rightarrow> string \<Rightarrow> pyerr + ('f results \<times> 'f metrics)" where
  "parse_jasome_xml lib fs xml_file_path =
     (case fs xml_file_path of
        Missing \<Rightarrow> Inl FileNotFoundError
      | Unreachable e \<Rightarrow> Inl e
      | Unreadable e \<Rightarrow> Inl e
      | Readable xml_content \<Rightarrow>
         (case xml_parse lib xml_content of
            Inl e \<Rightarrow> Inl e
          | Inr data \<Rightarrow>
             (case extract_method_metrics lib data empty_metrics of
                Inl e \<Rightarrow> Inl e
              | Inr metrics \<Rightarrow>
                 (case compute_results lib metrics of
                    Inl e \<Rightarrow> Inl e
                  | Inr results \<Rightarrow> Inr (results, metrics)))))"

section \<open>The report\<close>

text \<open>\<^verbatim>\<open>str\<close> of a natural number.\<close>

definition digit_char :: "nat \<Rightarrow> char" where
  "digit_char d = ''0123456789'' ! d"

fun str_nat :: "nat \<Rightarrow> string" where
  "str_nat n = (if n < 10 then [digit_char n] else str_nat (n div 10) @ [digit_char (n mod 10)])"

declare str_nat.simps [simp del]

text \<open>
  \<^verbatim>\<open>s.replace('_', ' ')\<close> and \<^verbatim>\<open>s.title()\<close>, on ASCII text (the four keys of \<^verbatim>\<open>metrics\<close>
  are ASCII): a letter that follows a letter is put in lower case, any other letter in
  upper case.
\<close>

definition replace_underscores :: "string \<Rightarrow> string" where
  "replace_underscores s = map (\<lambda>c. if c = CHR ''_'' then CHR '' '' else c) s"

definition lower_letters :: string where
  "lower_letters = ''abcdefghijklmnopqrstuvwxyz''"

definition upper_letters :: string where
  "upper_letters = ''ABCDEFGHIJKLMNOPQRSTUVWXYZ''"

definition upper_char :: "char \<Rightarrow> char" where
  "upper_char c = (case map_of (zip lower_letters upper_letters) c of None \<Rightarrow> c | Some u \<Rightarrow> u)"

definition lower_char :: "char \<Rightarrow> char" where
  "lower_char c = (case map_of (zip upper_letters lower_letters) c of None \<Rightarrow> c | Some l \<Rightarrow> l)"

definition is_cased :: "char \<Rightarrow> bool" where
  "is_cased c = (c \<in> set (lower_letters @ upper_letters))"

fun title_from :: "bool \<Rightarrow> string \<Rightarrow> string" where
  "title_from previous_is_cased [] = []"
| "title_from previous_is_cased (c # cs) =
     (if is_cased c
      then (if previous_is_cased then lower_char c else upper_char c) # title_from True cs
      else c # title_from False cs)"

definition py_title :: "string \<Rightarrow> string" where
  "py_title s = title_from False s"

definition banner :: string where
  "banner = replicate 60 CHR ''=''"

definition dashes :: string where
  "dashes = replicate 60 CHR ''-''"

text \<open>\<^verbatim>\<open>metrics.items()\<close>, in insertion order.\<close>

definition metrics_items :: "'f metrics \<Rightarrow> (string \<times> 'f list) list" where
  "metrics_items metrics =
     [(''mccabe_cyclomatic_complexity'', mccabe_cyclomatic_complexity metrics),
      (''system_complexity'', system_complexity metrics),
      (''data_complexity'', data_complexity metrics),
      (''total_lines_of_code'', total_lines_of_code metrics)]"

text \<open>
  Output is the list of the strings given to \<^verbatim>\<open>print\<close>, in order (each call adds a line
  end), with the exception that stopped the printing, if one did. One round of the loop of
  source lines 121 to 129:
\<close>

definition metric_block ::
  "('f, 'z) pylib_scheme \<Rightarrow> string \<Rightarrow> 'f list \<Rightarrow> string list \<times> pyerr option" where
  "metric_block lib metric_name metric_values =
     (if metric_values = [] then ([], None)
      else
        (let readable_name = py_title (replace_underscores metric_name);
             l1 = [CHR 0x0A # readable_name @ '':'',
                   ''  Min:    '' @ format_2f lib (PyFloat (min_of lib metric_values)),
                   ''  Max:    '' @ format_2f lib (PyFloat (max_of lib metric_values))]
         in case median_of lib metric_values of
              Inl e \<Rightarrow> (l1, Some e)
            | Inr med \<Rightarrow>
               (let l2 = l1 @ [''  Median: '' @ format_2f lib (PyFloat med)]
                in if length metric_values > 1 then
                     (case stdev_of lib metric_values of
                        Inl e \<Rightarrow> (l2, Some e)
                      | Inr sd \<Rightarrow> (l2 @ [''  StdDev: '' @ format_2f lib (PyFloat sd)], None))
                   else (l2 @ [''  StdDev: N/A''], None))))"

fun metric_blocks ::
  "('f, 'z) pylib_scheme \<Rightarrow> (string \<times> 'f list) list \<Rightarrow> string list \<times> pyerr option" where
  "metric_blocks lib [] = ([], None)"
| "metric_blocks lib ((metric_name, metric_values) # rest) =
     (case metric_block lib metric_name metric_values of
        (ls, Some e) \<Rightarrow> (ls, Some e)
      | (ls, None) \<Rightarrow> (case metric_blocks lib rest of (ls', r) \<Rightarrow> (ls @ ls', r)))"

definition report_head :: "('f, 'z) pylib_scheme \<Rightarrow> 'f results \<Rightarrow> string list" where
  "report_head lib results =
     [banner,
      ''JASOME METRICS ANALYSIS - AVERAGE ACROSS METHODS'',
      banner,
      CHR 0x0A # ''Total Methods Analyzed: '' @ str_nat (total_methods results),
      CHR 0x0A # dashes,
      ''AVERAGE METRICS:'',
      dashes,
      ''McCabe Cyclomatic Complexity: '' @ format_2f lib (avg_mccabe_cyclomatic_complexity results),
      ''System Complexity:            '' @ format_2f lib (avg_system_complexity results),
      ''Data Complexity:              '' @ format_2f lib (avg_data_complexity results),
      ''Total Lines of Code (TLOC):   '' @ format_2f lib (avg_total_lines_of_code results),
      banner]"

text \<open>The two lines that open the additional-statistics section (source lines 118, 119).\<close>

definition additional_head :: "string list" where
  "additional_head = [CHR 0x0A # ''ADDITIONAL STATISTICS:'', dashes]"

definition display_results ::
  "('f, 'z) pylib_scheme \<Rightarrow> 'f results \<Rightarrow> 'f metrics \<Rightarrow> string list \<times> pyerr option" where
  "display_results lib results metrics =
     (if total_methods results > 0 then
        (case metric_blocks lib (metrics_items metrics) of
           (ls, r) \<Rightarrow> (report_head lib results @ additional_head @ ls, r))
      else (report_head lib results, None))"

section \<open>The program\<close>

text \<open>
  What a run writes: a \<^verbatim>\<open>print\<close> to standard output, or the trace that
  \<^verbatim>\<open>traceback.print_exc()\<close> writes to standard error for the exception being handled.
\<close>

datatype event = Print string | PrintExc pyerr

text \<open>The handler of source lines 157 to 160.\<close>

definition report_exception :: "('f, 'z) pylib_scheme \<Rightarrow> pyerr \<Rightarrow> event list" where
  "report_exception lib e = [Print (''Error processing XML file: '' @ exc_str lib e), PrintExc e]"

text \<open>Source lines 147 to 150; \<open>xml_file\<close> is \<^verbatim>\<open>str(Path(args.xml))\<close>.\<close>

definition usage_hint :: "string \<Rightarrow> event list" where
  "usage_hint xml_file =
     [Print (''Error: XML file '' @ [CHR 0x27] @ xml_file @ [CHR 0x27] @ '' not found!'' @ [CHR 0x0A]),
      Print ''Example usage:'',
      Print ''  python metrics.py output.xml'',
      Print (''  python metrics.py /path/to/output.xml'' @ [CHR 0x0A])]"

text \<open>
  \<^verbatim>\<open>main\<close>, after the command line has been parsed. \<open>Inr\<close> is a normal return (the process
  then ends with status 0), \<open>Inl\<close> is an exception that leaves \<^verbatim>\<open>main\<close> (the interpreter
  then prints its trace and ends with status 1). The existence test of source line 146
  stands before the \<^verbatim>\<open>try\<close> of line 153, so what it raises is not caught.
\<close>

definition main :: "('f, 'z) pylib_scheme \<Rightarrow> filesystem \<Rightarrow> string \<Rightarrow> pyerr + event list" where
  "main lib fs xml_file =
     (case path_exists (fs xml_file) of
        Inl e \<Rightarrow> Inl e
      | Inr False \<Rightarrow> Inr (usage_hint xml_file)
      | Inr True \<Rightarrow>
         (case parse_jasome_xml lib fs xml_file of
            Inl e \<Rightarrow> Inr (report_exception lib e)
          | Inr (results, metrics) \<Rightarrow>
             (case display_results lib results metrics of
                (ls, None) \<Rightarrow> Inr (map Print ls)
              | (ls, Some e) \<Rightarrow> Inr (map Print ls @ report_exception lib e))))"

section \<open>Notions the properties are stated with\<close>

subsection \<open>Accumulation\<close>

text \<open>
  \<open>metrics_append a b\<close> puts the values of \<open>b\<close> behind those of \<open>a\<close>, list by list, and
  \<open>after m r\<close> is the outcome \<open>r\<close> of a piece of the walk started on empty lists, moved
  behind what had been collected in \<open>m\<close>.
\<close>

definition metrics_append :: "'f metrics \<Rightarrow> 'f metrics \<Rightarrow> 'f metrics" where
  "metrics_append a b =
     \<lparr>mccabe_cyclomatic_complexity = mccabe_cyclomatic_complexity a @ mccabe_cyclomatic_complexity b,
      system_complexity = system_complexity a @ system_complexity b,
      data_complexity = data_complexity a @ data_complexity b,
      total_lines_of_code = total_lines_of_code a @ total_lines_of_code b\<rparr>"

definition after :: "'f metrics \<Rightarrow> pyerr + 'f metrics \<Rightarrow> pyerr + 'f metrics" where
  "after m r = (case r of Inl e \<Rightarrow> Inl e | Inr d \<Rightarrow> Inr (metrics_append m d))"

text \<open>
  \<open>within d M\<close>: the values of \<open>d\<close> stand in \<open>M\<close>, list by list, together and in
  their order.
\<close>

definition within :: "'f metrics \<Rightarrow> 'f metrics \<Rightarrow> bool" where
  "within d M = (\<exists>pre post. M = metrics_append (metrics_append pre d) post)"

subsection \<open>Nodes of a tree, Method nodes, metric entries\<close>

text \<open>Every node of a tree, the root first, in document order.\<close>

fun subnodes :: "node \<Rightarrow> node list"
  and subnodes_children :: "(string \<times> node) list \<Rightarrow> node list"
  and subnodes_items :: "node list \<Rightarrow> node list" where
  "subnodes (Dict kvs) = Dict kvs # subnodes_children kvs"
| "subnodes (List xs) = List xs # subnodes_items xs"
| "subnodes (Str s) = [Str s]"
| "subnodes PyNone = [PyNone]"
| "subnodes_children [] = []"
| "subnodes_children ((key, val) # rest) = subnodes val @ subnodes_children rest"
| "subnodes_items [] = []"
| "subnodes_items (item # rest) = subnodes item @ subnodes_items rest"

text \<open>
  The Method nodes directly under a node: the value of its \<^verbatim>\<open>Method\<close> key, or the elements
  of that value when it is a sequence. The Method nodes of a tree are those of all its nodes.
\<close>

fun methods_of :: "node \<Rightarrow> node list" where
  "methods_of (Dict kvs) = (case map_of kvs ''Method'' of None \<Rightarrow> [] | Some v \<Rightarrow> as_list v)"
| "methods_of v = []"

definition method_nodes :: "node \<Rightarrow> node list" where
  "method_nodes data = concat (map methods_of (subnodes data))"

text \<open>The metric entries of a Method node: what is under \<^verbatim>\<open>Metrics\<close>, then \<^verbatim>\<open>Metric\<close>.\<close>

definition metric_entries :: "node \<Rightarrow> node list" where
  "metric_entries method =
     (case py_getitem method ''Metrics'' of
        Inl e \<Rightarrow> []
      | Inr ms \<Rightarrow> (case py_getitem ms ''Metric'' of Inl e \<Rightarrow> [] | Inr es \<Rightarrow> as_list es))"

definition recognized_names :: "string list" where
  "recognized_names = [''VG'', ''Ci'', ''Di'', ''TLOC'']"


text \<open>
  What \<open>process_metric\<close> does with a value \<open>x\<close> under a recognised name: it goes to the end
  of the list of that name.
\<close>

definition append_sample :: "string \<Rightarrow> 'f \<Rightarrow> 'f metrics \<Rightarrow> 'f metrics" where
  "append_sample name x m =
     (if name = ''VG'' then m\<lparr>mccabe_cyclomatic_complexity := mccabe_cyclomatic_complexity m @ [x]\<rparr>
      else if name = ''Ci'' then m\<lparr>system_complexity := system_complexity m @ [x]\<rparr>
      else if name = ''Di'' then m\<lparr>data_complexity := data_complexity m @ [x]\<rparr>
      else if name = ''TLOC'' then m\<lparr>total_lines_of_code := total_lines_of_code m @ [x]\<rparr>
      else m)"

subsection \<open>The samples of a tree\<close>




text \<open>The four lists that a sequence of samples fills: each code takes its values, in order.\<close>

definition values_of :: "string \<Rightarrow> (string \<times> 'f) list \<Rightarrow> 'f list" where
  "values_of code ss = map snd (filter (\<lambda>s. fst s = code) ss)"

definition metrics_of_samples :: "(string \<times> 'f) list \<Rightarrow> 'f metrics" where
  "metrics_of_samples ss =
     \<lparr>mccabe_cyclomatic_complexity = values_of ''VG'' ss,
      system_complexity = values_of ''Ci'' ss,
      data_complexity = values_of ''Di'' ss,
      total_lines_of_code = values_of ''TLOC'' ss\<rparr>"



subsection \<open>Single entry or sequence of one entry\<close>

text \<open>
  \<open>wrap_singles\<close> puts every value of a \<^verbatim>\<open>Method\<close> or \<^verbatim>\<open>Metric\<close> key that is not a sequence
  into a sequence of one element, everywhere in a tree. Two trees with the same image differ
  only in how they write such values: as a single entry, or as a sequence of that one entry.
\<close>

fun wrap_singles :: "node \<Rightarrow> node"
  and wrap_children :: "(string \<times> node) list \<Rightarrow> (string \<times> node) list"
  and wrap_items :: "node list \<Rightarrow> node list" where
  "wrap_singles (Dict kvs) = Dict (wrap_children kvs)"
| "wrap_singles (List xs) = List (wrap_items xs)"
| "wrap_singles (Str s) = Str s"
| "wrap_singles PyNone = PyNone"
| "wrap_children [] = []"
| "wrap_children ((key, val) # rest) =
     (key, if (key = ''Method'' \<or> key = ''Metric'') \<and> \<not> is_list val
           then List [wrap_singles val] else wrap_singles val) # wrap_children rest"
| "wrap_items [] = []"
| "wrap_items (item # rest) = wrap_singles item # wrap_items rest"

text \<open>What \<open>wrap_children\<close> puts under the key \<open>k\<close> in place of \<open>v\<close>.\<close>

definition wrap_value :: "string \<Rightarrow> node \<Rightarrow> node" where
  "wrap_value k v = (if (k = ''Method'' \<or> k = ''Metric'') \<and> \<not> is_list v
                     then List [wrap_singles v] else wrap_singles v)"

subsection \<open>Removing metric entries\<close>

text \<open>
  \<open>remove_entries p\<close> takes the entries that satisfy \<open>p\<close> out of the value of every
  \<^verbatim>\<open>Metric\<close> key of a tree: out of the sequence when the value is one, and leaving the empty
  sequence when the value is a single entry that satisfies \<open>p\<close>.
\<close>

fun remove_entries :: "(node \<Rightarrow> bool) \<Rightarrow> node \<Rightarrow> node"
  and remove_children :: "(node \<Rightarrow> bool) \<Rightarrow> (string \<times> node) list \<Rightarrow> (string \<times> node) list"
  and remove_items :: "(node \<Rightarrow> bool) \<Rightarrow> node list \<Rightarrow> node list"
  and remove_metric_value :: "(node \<Rightarrow> bool) \<Rightarrow> node \<Rightarrow> node"
  and remove_metric_items :: "(node \<Rightarrow> bool) \<Rightarrow> node list \<Rightarrow> node list" where
  "remove_entries p (Dict kvs) = Dict (remove_children p kvs)"
| "remove_entries p (List xs) = List (remove_items p xs)"
| "remove_entries p (Str s) = Str s"
| "remove_entries p PyNone = PyNone"
| "remove_children p [] = []"
| "remove_children p ((key, val) # rest) =
     (key, if key = ''Metric'' then remove_metric_value p val else remove_entries p val)
       # remove_children p rest"
| "remove_items p [] = []"
| "remove_items p (item # rest) = remove_entries p item # remove_items p rest"
| "remove_metric_value p (List xs) = List (remove_metric_items p xs)"
| "remove_metric_value p (Dict kvs) =
     (if p (Dict kvs) then List [] else Dict (remove_children p kvs))"
| "remove_metric_value p (Str s) = (if p (Str s) then List [] else Str s)"
| "remove_metric_value p PyNone = (if p PyNone then List [] else PyNone)"
| "remove_metric_items p [] = []"
| "remove_metric_items p (item # rest) =
     (if p item then remove_metric_items p rest
      else remove_entries p item # remove_metric_items p rest)"

subsection \<open>A small library to run the model on\<close>

text \<open>
  A stand-in for the library, for evaluating the definitions on concrete inputs: its floats
  are integers, \<^verbatim>\<open>float\<close> reads unsigned decimal digits, and the XML parser returns the
  tree it is given, whatever the text.
\<close>

definition digit_value :: "char \<Rightarrow> int option" where
  "digit_value c = map_of (zip ''0123456789'' [0, 1, 2, 3, 4, 5, 6, 7, 8, 9]) c"

fun decimal :: "string \<Rightarrow> int \<Rightarrow> int option" where
  "decimal [] acc = Some acc"
| "decimal (c # cs) acc =
     (case digit_value c of None \<Rightarrow> None | Some d \<Rightarrow> decimal cs (10 * acc + d))"

definition sample_float :: "string \<Rightarrow> int option" where
  "sample_float s = (if s = [] then None else decimal s 0)"

definition sample_lib :: "node \<Rightarrow> int pylib" where
  "sample_lib data =
     \<lparr>float_of = sample_float,
      xml_parse = (\<lambda>xml_content. Inr data),
      mean_of = (\<lambda>xs. sum_list xs div int (length xs)),
      min_of = (\<lambda>xs. fold min xs (hd xs)),
      max_of = (\<lambda>xs. fold max xs (hd xs)),
      median_of = (\<lambda>xs. Inr (sort xs ! (length xs div 2))),
      stdev_of = (\<lambda>xs. Inr 0),
      format_2f = (\<lambda>v. case v of PyInt i \<Rightarrow> str_nat (nat i) @ ''.00''
                               | PyFloat x \<Rightarrow> str_nat (nat x) @ ''.00''),
      exc_str = (\<lambda>e. case e of ZeroDivisionError \<Rightarrow> ''division by zero'' | _ \<Rightarrow> ''error'')\<rparr>"

definition sample_fs :: "string \<Rightarrow> filesystem" where
  "sample_fs xml_content = (\<lambda>path. if path = ''output.xml'' then Readable xml_content else Missing)"

text \<open>One metric entry, one method, and a class that holds methods.\<close>

definition metric_entry :: "string \<Rightarrow> string \<Rightarrow> node" where
  "metric_entry name val = Dict [(''@name'', Str name), (''@value'', Str val)]"

definition method_with :: "node \<Rightarrow> node" where
  "method_with entries = Dict [(''@name'', Str ''run''), (''Metrics'', Dict [(''Metric'', entries)])]"

definition class_with :: "node \<Rightarrow> node" where
  "class_with methods = Dict [(''Class'', Dict [(''@name'', Str ''A''), (''Method'', methods)])]"


definition project_vg_only :: node where
  "project_vg_only = class_with (method_with (metric_entry ''VG'' ''3''))"

definition project_bad_value :: node where
  "project_bad_value =
     class_with (List [method_with (metric_entry ''VG'' ''3''),
                       method_with (List [metric_entry ''Ci'' ''abc'', metric_entry ''VG'' ''4''])])"

definition method_two_vg :: node where
  "method_two_vg =
     method_with (List [metric_entry ''VG'' ''3'', metric_entry ''Ci'' ''1'', metric_entry ''Di'' ''2'',
                        metric_entry ''TLOC'' ''9'', metric_entry ''VG'' ''5'', metric_entry ''XYZ'' ''7''])"

definition project_two_vg :: node where
  "project_two_vg = class_with method_two_vg"



text \<open>
  The tree that the file parses to once the entries are deleted from it. The parser writes
  the children of one name as a sequence only when there are several, so a \<^verbatim>\<open>Metric\<close>
  value left with one entry is that entry, and a \<^verbatim>\<open>Metric\<close> value left with none is no key
  at all; an element left without attributes and children is \<^verbatim>\<open>None\<close>, or its text when it
  has some.
\<close>

fun single :: "node \<Rightarrow> node" where
  "single (List [e]) = (if is_list e then List [e] else e)"
| "single v = v"

fun collapse :: "(string \<times> node) list \<Rightarrow> node" where
  "collapse [] = PyNone"
| "collapse [(k, Str s)] = (if k = ''#text'' then Str s else Dict [(k, Str s)])"
| "collapse kvs = Dict kvs"

fun as_parsed :: "node \<Rightarrow> node"
  and as_parsed_children :: "(string \<times> node) list \<Rightarrow> (string \<times> node) list"
  and as_parsed_items :: "node list \<Rightarrow> node list" where
  "as_parsed (Dict kvs) =
     (if length (as_parsed_children kvs) < length kvs
      then collapse (as_parsed_children kvs) else Dict (as_parsed_children kvs))"
| "as_parsed (List xs) = List (as_parsed_items xs)"
| "as_parsed (Str s) = Str s"
| "as_parsed PyNone = PyNone"
| "as_parsed_children [] = []"
| "as_parsed_children ((key, val) # rest) =
     (if key = ''Metric'' \<and> val = List [] then as_parsed_children rest
      else (key, if key = ''Metric'' then single (as_parsed val) else as_parsed val)
             # as_parsed_children rest)"
| "as_parsed_items [] = []"
| "as_parsed_items (item # rest) = as_parsed item # as_parsed_items rest"









section \<open>What a piece of the walk adds does not depend on what was collected before\<close>

lemma metrics_append_empty [simp]:
  "metrics_append empty_metrics d = d" "metrics_append d empty_metrics = d"
  by (simp_all add: metrics_append_def empty_metrics_def)

lemma metrics_append_assoc:
  "metrics_append (metrics_append a b) c = metrics_append a (metrics_append b c)"
  by (simp add: metrics_append_def)

lemma after_simps [simp]:
  "after m (Inl e) = Inl e" "after m (Inr d) = Inr (metrics_append m d)"
  by (simp_all add: after_def)

lemma after_empty [simp]: "after empty_metrics r = r"
  by (cases r) simp_all

lemma after_after: "after (metrics_append a b) r = after a (after b r)"
  by (cases r) (simp_all add: metrics_append_assoc)

lemma after_InrD:
  assumes "after m r = Inr M"
  obtains d where "r = Inr d" and "M = metrics_append m d"
  using assms by (cases r) auto

lemma seq_after:
  assumes f: "\<And>m. f m = after m (f empty_metrics)"
    and g: "\<And>m. g m = after m (g empty_metrics)"
  shows "(case f m of Inl e \<Rightarrow> Inl e | Inr m' \<Rightarrow> g m') =
         after m (case f empty_metrics of Inl e \<Rightarrow> Inl e | Inr m' \<Rightarrow> g m')"
proof (cases "f empty_metrics")
  case (Inl e)
  then have "f m = Inl e" using f [of m] by simp
  with Inl show ?thesis by simp
next
  case (Inr d)
  then have fm: "f m = Inr (metrics_append m d)" using f [of m] by simp
  have "g (metrics_append m d) = after (metrics_append m d) (g empty_metrics)"
    by (rule g)
  also have "\<dots> = after m (after d (g empty_metrics))"
    by (rule after_after)
  also have "\<dots> = after m (g d)"
    using g [of d] by simp
  finally show ?thesis using Inr fm by simp
qed

lemma process_metric_after:
  "process_metric lib metric m = after m (process_metric lib metric empty_metrics)"
  by (simp add: process_metric_def metrics_append_def empty_metrics_def split: sum.splits)

lemma process_metrics_after:
  "process_metrics lib metrics m = after m (process_metrics lib metrics empty_metrics)"
proof (induction metrics arbitrary: m)
  case Nil
  show ?case by simp
next
  case (Cons metric rest)
  show ?case
    unfolding process_metrics.simps
    by (rule seq_after [OF process_metric_after Cons.IH])
qed

lemma process_method_after:
  "process_method lib method m = after m (process_method lib method empty_metrics)"
  using process_metrics_after [of lib _ m]
  by (simp add: process_method_def split: sum.splits bool.splits)

lemma process_methods_after:
  "process_methods lib methods m = after m (process_methods lib methods empty_metrics)"
proof (induction methods arbitrary: m)
  case Nil
  show ?case by simp
next
  case (Cons mth rest)
  show ?case
    unfolding process_methods.simps
    by (rule seq_after [OF process_method_after Cons.IH])
qed

lemma visit_methods_after:
  "visit_methods lib kvs m = after m (visit_methods lib kvs empty_metrics)"
  using process_methods_after [of lib _ m]
  by (simp add: visit_methods_def split: option.splits)

lemma extract_children_after:
  assumes "\<And>k v m. (k, v) \<in> set kvs \<Longrightarrow>
             extract_method_metrics lib v m = after m (extract_method_metrics lib v empty_metrics)"
  shows "extract_children lib kvs m = after m (extract_children lib kvs empty_metrics)"
  using assms
proof (induction kvs arbitrary: m)
  case Nil
  show ?case by simp
next
  case (Cons kv rest)
  obtain k v where kv: "kv = (k, v)" by (cases kv)
  have rest: "extract_children lib rest m' = after m' (extract_children lib rest empty_metrics)" for m'
  proof (rule Cons.IH)
    fix k' v' m''
    assume "(k', v') \<in> set rest"
    then have "(k', v') \<in> set (kv # rest)" by simp
    then show "extract_method_metrics lib v' m'' =
               after m'' (extract_method_metrics lib v' empty_metrics)"
      by (rule Cons.prems)
  qed
  have "(k, v) \<in> set (kv # rest)" by (simp add: kv)
  then have v: "extract_method_metrics lib v m' =
                after m' (extract_method_metrics lib v empty_metrics)" for m'
    by (rule Cons.prems)
  show ?case
  proof (cases "is_dict v \<or> is_list v")
    case True
    then have eq: "extract_children lib ((k, v) # rest) m' =
        (case extract_method_metrics lib v m' of
           Inl e \<Rightarrow> Inl e | Inr m'' \<Rightarrow> extract_children lib rest m'')" for m'
      by simp
    show ?thesis unfolding kv eq by (rule seq_after [OF v rest])
  next
    case False
    then have eq: "extract_children lib ((k, v) # rest) m' = extract_children lib rest m'" for m'
      by simp
    show ?thesis unfolding kv eq by (rule rest)
  qed
qed

lemma extract_items_after:
  assumes "\<And>x m. x \<in> set xs \<Longrightarrow>
             extract_method_metrics lib x m = after m (extract_method_metrics lib x empty_metrics)"
  shows "extract_items lib xs m = after m (extract_items lib xs empty_metrics)"
  using assms
proof (induction xs arbitrary: m)
  case Nil
  show ?case by simp
next
  case (Cons x rest)
  have rest: "extract_items lib rest m' = after m' (extract_items lib rest empty_metrics)" for m'
  proof (rule Cons.IH)
    fix y m''
    assume "y \<in> set rest"
    then have "y \<in> set (x # rest)" by simp
    then show "extract_method_metrics lib y m'' =
               after m'' (extract_method_metrics lib y empty_metrics)"
      by (rule Cons.prems)
  qed
  have "x \<in> set (x # rest)" by simp
  then have x: "extract_method_metrics lib x m' =
                after m' (extract_method_metrics lib x empty_metrics)" for m'
    by (rule Cons.prems)
  show ?case
    unfolding extract_items.simps by (rule seq_after [OF x rest])
qed

lemma extract_method_metrics_after:
  "extract_method_metrics lib node m = after m (extract_method_metrics lib node empty_metrics)"
proof (induction node arbitrary: m)
  case (Str s)
  show ?case by simp
next
  case PyNone
  show ?case by simp
next
  case (Dict kvs)
  have ch: "extract_children lib kvs m' = after m' (extract_children lib kvs empty_metrics)" for m'
  proof (rule extract_children_after)
    fix k v m''
    assume "(k, v) \<in> set kvs"
    moreover have "v \<in> Basic_BNFs.snds (k, v)" by simp
    ultimately show "extract_method_metrics lib v m'' =
                     after m'' (extract_method_metrics lib v empty_metrics)"
      by (rule Dict.IH)
  qed
  show ?case
    unfolding extract_method_metrics.simps
    by (rule seq_after [OF visit_methods_after ch])
next
  case (List xs)
  show ?case
    unfolding extract_method_metrics.simps
    by (rule extract_items_after) (rule List.IH)
qed

section \<open>The walk reaches every node\<close>

lemma visit_methods_methods_of:
  "visit_methods lib kvs m = process_methods lib (methods_of (Dict kvs)) m"
proof (cases "map_of kvs ''Method''")
  case None
  then have "''Method'' \<notin> set (map fst kvs)"
    by (simp add: map_of_eq_None_iff)
  with None show ?thesis by (simp add: visit_methods_def)
next
  case (Some v)
  then have "(''Method'', v) \<in> set kvs" by (rule map_of_SomeD)
  then have "''Method'' \<in> set (map fst kvs)" by force
  with Some show ?thesis by (simp add: visit_methods_def)
qed

lemma within_refl: "within d d"
  unfolding within_def
proof (intro exI)
  show "d = metrics_append (metrics_append empty_metrics d) empty_metrics" by simp
qed

lemma within_empty: "within empty_metrics M"
  unfolding within_def
proof (intro exI)
  show "M = metrics_append (metrics_append empty_metrics empty_metrics) M" by simp
qed

lemma within_append_left: "within d M \<Longrightarrow> within d (metrics_append a M)"
  unfolding within_def
proof (elim exE)
  fix pre post
  assume "M = metrics_append (metrics_append pre d) post"
  then have "metrics_append a M = metrics_append (metrics_append (metrics_append a pre) d) post"
    by (simp add: metrics_append_assoc)
  then show "\<exists>pre post. metrics_append a M = metrics_append (metrics_append pre d) post"
    by blast
qed

lemma within_append_right: "within d M \<Longrightarrow> within d (metrics_append M b)"
  unfolding within_def
proof (elim exE)
  fix pre post
  assume "M = metrics_append (metrics_append pre d) post"
  then have "metrics_append M b = metrics_append (metrics_append pre d) (metrics_append post b)"
    by (simp add: metrics_append_assoc)
  then show "\<exists>pre post. metrics_append M b = metrics_append (metrics_append pre d) post"
    by blast
qed

lemma within_trans: "within a b \<Longrightarrow> within b c \<Longrightarrow> within a c"
proof -
  assume "within a b" and bc: "within b c"
  from bc obtain pre post where c: "c = metrics_append (metrics_append pre b) post"
    unfolding within_def by blast
  from \<open>within a b\<close> have "within a (metrics_append pre b)" by (rule within_append_left)
  then have "within a (metrics_append (metrics_append pre b) post)" by (rule within_append_right)
  with c show ?thesis by simp
qed

text \<open>A loop that ends normally ran each of its rounds normally.\<close>

lemma process_metrics_member:
  assumes "process_metrics lib es empty_metrics = Inr M" and "e \<in> set es"
  shows "\<exists>d. process_metric lib e empty_metrics = Inr d \<and> within d M"
  using assms
proof (induction es arbitrary: M)
  case Nil
  then show ?case by simp
next
  case (Cons x rest)
  from Cons.prems(1) obtain a where a: "process_metric lib x empty_metrics = Inr a"
    and r: "process_metrics lib rest a = Inr M"
    by (auto split: sum.splits)
  from r have "after a (process_metrics lib rest empty_metrics) = Inr M"
    using process_metrics_after [of lib rest a] by simp
  then obtain c where c: "process_metrics lib rest empty_metrics = Inr c"
    and M: "M = metrics_append a c"
    by (rule after_InrD)
  show ?case
  proof (cases "e = x")
    case True
    have "within a (metrics_append a c)" by (rule within_append_right [OF within_refl])
    with True a M show ?thesis by simp
  next
    case False
    with Cons.prems(2) have "e \<in> set rest" by simp
    with Cons.IH [OF c] obtain d where "process_metric lib e empty_metrics = Inr d" "within d c"
      by blast
    then show ?thesis using M within_append_left by blast
  qed
qed

lemma process_methods_member:
  assumes "process_methods lib ms empty_metrics = Inr M" and "method \<in> set ms"
  shows "\<exists>d. process_method lib method empty_metrics = Inr d \<and> within d M"
  using assms
proof (induction ms arbitrary: M)
  case Nil
  then show ?case by simp
next
  case (Cons x rest)
  from Cons.prems(1) obtain a where a: "process_method lib x empty_metrics = Inr a"
    and r: "process_methods lib rest a = Inr M"
    by (auto split: sum.splits)
  from r have "after a (process_methods lib rest empty_metrics) = Inr M"
    using process_methods_after [of lib rest a] by simp
  then obtain c where c: "process_methods lib rest empty_metrics = Inr c"
    and M: "M = metrics_append a c"
    by (rule after_InrD)
  show ?case
  proof (cases "method = x")
    case True
    have "within a (metrics_append a c)" by (rule within_append_right [OF within_refl])
    with True a M show ?thesis by simp
  next
    case False
    with Cons.prems(2) have "method \<in> set rest" by simp
    with Cons.IH [OF c] obtain d where "process_method lib method empty_metrics = Inr d" "within d c"
      by blast
    then show ?thesis using M within_append_left by blast
  qed
qed

lemma map_of_Some_key: "map_of kvs k = Some v \<Longrightarrow> k \<in> set (map fst kvs)"
  by (force dest: map_of_SomeD)

lemma process_method_entries:
  assumes "e \<in> set (metric_entries method)"
  shows "\<exists>ms es. py_getitem method ''Metrics'' = Inr ms \<and> py_getitem ms ''Metric'' = Inr es \<and>
           e \<in> set (as_list es) \<and>
           (\<forall>m. process_method lib method m = process_metrics lib (as_list es) m)"
proof -
  from assms obtain ms where ms: "py_getitem method ''Metrics'' = Inr ms"
    by (cases "py_getitem method ''Metrics''") (simp_all add: metric_entries_def)
  with assms obtain es where es: "py_getitem ms ''Metric'' = Inr es"
    by (cases "py_getitem ms ''Metric''") (simp_all add: metric_entries_def)
  from assms ms es have e: "e \<in> set (as_list es)"
    by (simp add: metric_entries_def)
  from ms obtain kvs where md: "method = Dict kvs"
    by (cases "method") simp_all
  from es obtain mkvs where msd: "ms = Dict mkvs"
    by (cases ms) simp_all
  from ms md have k1: "''Metrics'' \<in> set (map fst kvs)"
    by (auto split: option.splits dest: map_of_Some_key)
  from es msd have k2: "''Metric'' \<in> set (map fst mkvs)"
    by (auto split: option.splits dest: map_of_Some_key)
  have "process_method lib method m = process_metrics lib (as_list es) m" for m
    unfolding process_method_def using ms es k1 k2 md msd by simp
  with ms es e show ?thesis by blast
qed

lemma process_method_member:
  assumes "process_method lib method empty_metrics = Inr M" and "e \<in> set (metric_entries method)"
  shows "\<exists>d. process_metric lib e empty_metrics = Inr d \<and> within d M"
proof -
  from process_method_entries [OF assms(2), of lib] obtain es
    where e: "e \<in> set (as_list es)"
      and eq: "process_method lib method empty_metrics = process_metrics lib (as_list es) empty_metrics"
    by blast
  from assms(1) eq have "process_metrics lib (as_list es) empty_metrics = Inr M" by simp
  then show ?thesis using e by (rule process_metrics_member)
qed

lemma extract_children_member:
  assumes IH: "\<And>k v M d. (k, v) \<in> set kvs \<Longrightarrow> extract_method_metrics lib v empty_metrics = Inr M \<Longrightarrow>
             d \<in> set (subnodes v) \<Longrightarrow>
             \<exists>delta. extract_method_metrics lib d empty_metrics = Inr delta \<and> within delta M"
    and "extract_children lib kvs empty_metrics = Inr M"
    and "d \<in> set (subnodes_children kvs)"
  shows "\<exists>delta. extract_method_metrics lib d empty_metrics = Inr delta \<and> within delta M"
  using assms
proof (induction kvs arbitrary: M)
  case Nil
  then show ?case by simp
next
  case (Cons kv rest)
  obtain k v where kv: "kv = (k, v)" by (cases kv)
  have IHrest: "\<exists>delta. extract_method_metrics lib d empty_metrics = Inr delta \<and> within delta c"
    if "extract_children lib rest empty_metrics = Inr c" and "d \<in> set (subnodes_children rest)" for c
  proof (rule Cons.IH [OF _ that])
    fix k' v' M' d'
    assume "(k', v') \<in> set rest"
    then have "(k', v') \<in> set (kv # rest)" by simp
    then show "extract_method_metrics lib v' empty_metrics = Inr M' \<Longrightarrow> d' \<in> set (subnodes v') \<Longrightarrow>
       \<exists>delta. extract_method_metrics lib d' empty_metrics = Inr delta \<and> within delta M'"
      by (rule Cons.prems(1))
  qed
  have mem: "(k, v) \<in> set (kv # rest)" by (simp add: kv)
  from Cons.prems(3) have d: "d \<in> set (subnodes v) \<or> d \<in> set (subnodes_children rest)"
    by (simp add: kv)
  show ?case
  proof (cases "is_dict v \<or> is_list v")
    case True
    with Cons.prems(2) obtain a where a: "extract_method_metrics lib v empty_metrics = Inr a"
      and r: "extract_children lib rest a = Inr M"
      unfolding kv by (auto split: sum.splits)
    have "extract_children lib rest a = after a (extract_children lib rest empty_metrics)"
      by (rule extract_children_after) (rule extract_method_metrics_after)
    with r have "after a (extract_children lib rest empty_metrics) = Inr M" by simp
    then obtain c where c: "extract_children lib rest empty_metrics = Inr c"
      and M: "M = metrics_append a c"
      by (rule after_InrD)
    from d show ?thesis
    proof
      assume "d \<in> set (subnodes v)"
      with Cons.prems(1) [OF mem a] obtain delta
        where "extract_method_metrics lib d empty_metrics = Inr delta" "within delta a"
        by blast
      then show ?thesis using M within_append_right by blast
    next
      assume "d \<in> set (subnodes_children rest)"
      with IHrest [OF c] obtain delta
        where "extract_method_metrics lib d empty_metrics = Inr delta" "within delta c"
        by blast
      then show ?thesis using M within_append_left by blast
    qed
  next
    case False
    with Cons.prems(2) have r: "extract_children lib rest empty_metrics = Inr M"
      unfolding kv by simp
    from d show ?thesis
    proof
      assume "d \<in> set (subnodes v)"
      with False have "d = v" by (cases v) simp_all
      with False have "extract_method_metrics lib d empty_metrics = Inr empty_metrics"
        by (cases v) simp_all
      then show ?thesis using within_empty by blast
    next
      assume "d \<in> set (subnodes_children rest)"
      with r show ?thesis by (rule IHrest)
    qed
  qed
qed

lemma extract_items_member:
  assumes IH: "\<And>x M d. x \<in> set xs \<Longrightarrow> extract_method_metrics lib x empty_metrics = Inr M \<Longrightarrow>
             d \<in> set (subnodes x) \<Longrightarrow>
             \<exists>delta. extract_method_metrics lib d empty_metrics = Inr delta \<and> within delta M"
    and "extract_items lib xs empty_metrics = Inr M"
    and "d \<in> set (subnodes_items xs)"
  shows "\<exists>delta. extract_method_metrics lib d empty_metrics = Inr delta \<and> within delta M"
  using assms
proof (induction xs arbitrary: M)
  case Nil
  then show ?case by simp
next
  case (Cons x rest)
  have IHrest: "\<exists>delta. extract_method_metrics lib d empty_metrics = Inr delta \<and> within delta c"
    if "extract_items lib rest empty_metrics = Inr c" and "d \<in> set (subnodes_items rest)" for c
  proof (rule Cons.IH [OF _ that])
    fix y M' d'
    assume "y \<in> set rest"
    then have "y \<in> set (x # rest)" by simp
    then show "extract_method_metrics lib y empty_metrics = Inr M' \<Longrightarrow> d' \<in> set (subnodes y) \<Longrightarrow>
       \<exists>delta. extract_method_metrics lib d' empty_metrics = Inr delta \<and> within delta M'"
      by (rule Cons.prems(1))
  qed
  have mem: "x \<in> set (x # rest)" by simp
  from Cons.prems(3) have d: "d \<in> set (subnodes x) \<or> d \<in> set (subnodes_items rest)"
    by simp
  from Cons.prems(2) obtain a where a: "extract_method_metrics lib x empty_metrics = Inr a"
    and r: "extract_items lib rest a = Inr M"
    by (auto split: sum.splits)
  have "extract_items lib rest a = after a (extract_items lib rest empty_metrics)"
    by (rule extract_items_after) (rule extract_method_metrics_after)
  with r have "after a (extract_items lib rest empty_metrics) = Inr M" by simp
  then obtain c where c: "extract_items lib rest empty_metrics = Inr c"
    and M: "M = metrics_append a c"
    by (rule after_InrD)
  from d show ?case
  proof
    assume "d \<in> set (subnodes x)"
    with Cons.prems(1) [OF mem a] obtain delta
      where "extract_method_metrics lib d empty_metrics = Inr delta" "within delta a"
      by blast
    then show ?thesis using M within_append_right by blast
  next
    assume "d \<in> set (subnodes_items rest)"
    with IHrest [OF c] obtain delta
      where "extract_method_metrics lib d empty_metrics = Inr delta" "within delta c"
      by blast
    then show ?thesis using M within_append_left by blast
  qed
qed

lemma extract_subnode:
  assumes "extract_method_metrics lib node empty_metrics = Inr M" and "d \<in> set (subnodes node)"
  shows "\<exists>delta. extract_method_metrics lib d empty_metrics = Inr delta \<and> within delta M"
  using assms
proof (induction node arbitrary: M d)
  case (Str s)
  then show ?case using within_refl by auto
next
  case PyNone
  then show ?case using within_refl by auto
next
  case (Dict kvs)
  show ?case
  proof (cases "d = Dict kvs")
    case True
    with Dict.prems(1) show ?thesis using within_refl by blast
  next
    case False
    with Dict.prems(2) have d: "d \<in> set (subnodes_children kvs)" by simp
    from Dict.prems(1) obtain a where a: "visit_methods lib kvs empty_metrics = Inr a"
      and r: "extract_children lib kvs a = Inr M"
      by (auto split: sum.splits)
    have "extract_children lib kvs a = after a (extract_children lib kvs empty_metrics)"
      by (rule extract_children_after) (rule extract_method_metrics_after)
    with r have "after a (extract_children lib kvs empty_metrics) = Inr M" by simp
    then obtain c where c: "extract_children lib kvs empty_metrics = Inr c"
      and M: "M = metrics_append a c"
      by (rule after_InrD)
    have "\<exists>delta. extract_method_metrics lib d empty_metrics = Inr delta \<and> within delta c"
    proof (rule extract_children_member [OF _ c d])
      fix k v M' d'
      assume "(k, v) \<in> set kvs"
      moreover have "v \<in> Basic_BNFs.snds (k, v)" by simp
      ultimately show "extract_method_metrics lib v empty_metrics = Inr M' \<Longrightarrow> d' \<in> set (subnodes v) \<Longrightarrow>
        \<exists>delta. extract_method_metrics lib d' empty_metrics = Inr delta \<and> within delta M'"
        by (rule Dict.IH)
    qed
    then show ?thesis using M within_append_left by blast
  qed
next
  case (List xs)
  show ?case
  proof (cases "d = List xs")
    case True
    with List.prems(1) show ?thesis using within_refl by blast
  next
    case False
    with List.prems(2) have d: "d \<in> set (subnodes_items xs)" by simp
    from List.prems(1) have c: "extract_items lib xs empty_metrics = Inr M" by simp
    show ?thesis
      by (rule extract_items_member [OF _ c d]) (rule List.IH)
  qed
qed

lemma extract_method_node:
  assumes "extract_method_metrics lib data empty_metrics = Inr M"
    and "method \<in> set (method_nodes data)"
  shows "\<exists>delta. process_method lib method empty_metrics = Inr delta \<and> within delta M"
proof -
  from assms(2) obtain d where d: "d \<in> set (subnodes data)" and m: "method \<in> set (methods_of d)"
    by (auto simp: method_nodes_def)
  from m obtain kvs where dk: "d = Dict kvs" by (cases d) simp_all
  from extract_subnode [OF assms(1) d] obtain delta
    where delta: "extract_method_metrics lib d empty_metrics = Inr delta" and w: "within delta M"
    by blast
  from delta obtain a where a: "visit_methods lib kvs empty_metrics = Inr a"
    and r: "extract_children lib kvs a = Inr delta"
    unfolding dk by (auto split: sum.splits)
  have "extract_children lib kvs a = after a (extract_children lib kvs empty_metrics)"
    by (rule extract_children_after) (rule extract_method_metrics_after)
  with r have "after a (extract_children lib kvs empty_metrics) = Inr delta" by simp
  then obtain c where "delta = metrics_append a c" by (rule after_InrD)
  then have wa: "within a delta" using within_append_right [OF within_refl] by blast
  from a have "process_methods lib (methods_of d) empty_metrics = Inr a"
    by (simp add: visit_methods_methods_of dk)
  from process_methods_member [OF this m] obtain dm
    where "process_method lib method empty_metrics = Inr dm" "within dm a"
    by blast
  then show ?thesis using wa w within_trans by blast
qed

section \<open>A tree without Method nodes\<close>








section \<open>The properties\<close>

lemma parse_jasome_xml_Readable:
  assumes "fs xml_file = Readable xml_content" and "xml_parse lib xml_content = Inr data"
  shows "parse_jasome_xml lib fs xml_file =
           (case extract_method_metrics lib data empty_metrics of
              Inl e \<Rightarrow> Inl e
            | Inr metrics \<Rightarrow>
               (case compute_results lib metrics of
                  Inl e \<Rightarrow> Inl e
                | Inr results \<Rightarrow> Inr (results, metrics)))"
  using assms by (simp add: parse_jasome_xml_def)

lemma main_parse_error:
  assumes "path_exists (fs xml_file) = Inr True" and "parse_jasome_xml lib fs xml_file = Inl e"
  shows "main lib fs xml_file = Inr [Print (''Error processing XML file: '' @ exc_str lib e), PrintExc e]"
  using assms by (simp add: main_def report_exception_def)



text \<open>
  C2. When the walk ends with a non-empty VG list and an empty Ci, Di or TLOC list,
  \<open>parse_jasome_xml\<close> raises \<^verbatim>\<open>ZeroDivisionError\<close>; \<open>main\<close> catches it, and the whole output
  is the error message and the trace.
\<close>

theorem empty_sibling_list_raises:
  assumes "fs xml_file = Readable xml_content"
    and "xml_parse lib xml_content = Inr data"
    and "extract_method_metrics lib data empty_metrics = Inr metrics"
    and "mccabe_cyclomatic_complexity metrics \<noteq> []"
    and "system_complexity metrics = [] \<or> data_complexity metrics = []
           \<or> total_lines_of_code metrics = []"
  shows "parse_jasome_xml lib fs xml_file = Inl ZeroDivisionError \<and>
         main lib fs xml_file =
           Inr [Print (''Error processing XML file: '' @ exc_str lib ZeroDivisionError),
                PrintExc ZeroDivisionError]"
proof -
  have "compute_results lib metrics = Inl ZeroDivisionError"
    using assms(4,5) by (auto simp: compute_results_def py_avg_def)
  then have p: "parse_jasome_xml lib fs xml_file = Inl ZeroDivisionError"
    by (simp add: parse_jasome_xml_Readable [where fs = fs and xml_file = xml_file, OF assms(1,2)] assms(3))
  from assms(1) have "path_exists (fs xml_file) = Inr True" by simp
  then show ?thesis using p main_parse_error by blast
qed

lemma sample_float_simps:
  "sample_float ''0'' = Some 0" "sample_float ''1'' = Some 1" "sample_float ''2'' = Some 2"
  "sample_float ''3'' = Some 3" "sample_float ''4'' = Some 4" "sample_float ''5'' = Some 5"
  "sample_float ''9'' = Some 9" "sample_float ''abc'' = None"
  by (simp_all add: sample_float_def digit_value_def)

lemma extract_project_vg_only:
  "extract_method_metrics (sample_lib data) project_vg_only empty_metrics =
     Inr \<lparr>mccabe_cyclomatic_complexity = [3], system_complexity = [],
          data_complexity = [], total_lines_of_code = []\<rparr>"
  by (simp add: project_vg_only_def class_with_def method_with_def metric_entry_def
      visit_methods_def process_method_def process_metric_def empty_metrics_def
      sample_lib_def sample_float_simps)

theorem empty_sibling_list_raises_witness:
  "parse_jasome_xml (sample_lib project_vg_only) (sample_fs ''<Class/>'') ''output.xml''
     = Inl ZeroDivisionError \<and>
   main (sample_lib project_vg_only) (sample_fs ''<Class/>'') ''output.xml'' =
     Inr [Print ''Error processing XML file: division by zero'', PrintExc ZeroDivisionError]"
proof -
  have h1: "sample_fs ''<Class/>'' ''output.xml'' = Readable ''<Class/>''"
    by (simp add: sample_fs_def)
  have h2: "xml_parse (sample_lib project_vg_only) ''<Class/>'' = Inr project_vg_only"
    by (simp add: sample_lib_def)
  have e: "exc_str (sample_lib project_vg_only) ZeroDivisionError = ''division by zero''"
    by (simp add: sample_lib_def)
  from empty_sibling_list_raises [where fs = "sample_fs ''<Class/>''" and xml_file = "''output.xml''",
      OF h1 h2 extract_project_vg_only]
  show ?thesis by (simp add: e)
qed

lemma process_metric_bad_value:
  assumes "map_of kvs ''@name'' = Some (Str name)"
    and "name \<in> set recognized_names"
    and "map_of kvs ''@value'' = Some (Str s)"
    and "float_of lib s = None"
  shows "process_metric lib (Dict kvs) m = Inl (ValueError s)"
  using assms by (auto simp: process_metric_def recognized_names_def)

text \<open>
  C3. When the tree is readable and some metric entry of some Method node has a recognised
  name and a value attribute that \<^verbatim>\<open>float\<close> rejects, \<open>parse_jasome_xml\<close> raises, and the
  whole output of \<open>main\<close> is the error message and the trace: no line of the report.
\<close>

theorem non_numeric_value_aborts:
  assumes "fs xml_file = Readable xml_content"
    and "xml_parse lib xml_content = Inr data"
    and "mth \<in> set (method_nodes data)"
    and "Dict kvs \<in> set (metric_entries mth)"
    and "map_of kvs ''@name'' = Some (Str name)"
    and "name \<in> set recognized_names"
    and "map_of kvs ''@value'' = Some (Str s)"
    and "float_of lib s = None"
  shows "\<exists>e. extract_method_metrics lib data empty_metrics = Inl e \<and>
             parse_jasome_xml lib fs xml_file = Inl e \<and>
             main lib fs xml_file =
               Inr [Print (''Error processing XML file: '' @ exc_str lib e), PrintExc e]"
proof (cases "extract_method_metrics lib data empty_metrics")
  case (Inl e)
  then have p: "parse_jasome_xml lib fs xml_file = Inl e"
    by (simp add: parse_jasome_xml_Readable [where fs = fs and xml_file = xml_file, OF assms(1,2)])
  from assms(1) have "path_exists (fs xml_file) = Inr True" by simp
  then have "main lib fs xml_file =
      Inr [Print (''Error processing XML file: '' @ exc_str lib e), PrintExc e]"
    using p by (rule main_parse_error)
  with Inl p show ?thesis by blast
next
  case (Inr M)
  from extract_method_node [OF Inr assms(3)] obtain delta
    where "process_method lib mth empty_metrics = Inr delta"
    by blast
  from process_method_member [OF this assms(4)] obtain d
    where "process_metric lib (Dict kvs) empty_metrics = Inr d"
    by blast
  moreover have "process_metric lib (Dict kvs) empty_metrics = Inl (ValueError s)"
    using assms(5-8) by (rule process_metric_bad_value)
  ultimately show ?thesis by simp
qed

lemma method_nodes_project_bad_value:
  "method_nodes project_bad_value =
     [method_with (metric_entry ''VG'' ''3''),
      method_with (List [metric_entry ''Ci'' ''abc'', metric_entry ''VG'' ''4''])]"
  by (simp add: method_nodes_def project_bad_value_def class_with_def method_with_def
      metric_entry_def)

theorem non_numeric_value_aborts_witness:
  "\<exists>e. extract_method_metrics (sample_lib project_bad_value) project_bad_value empty_metrics = Inl e \<and>
       parse_jasome_xml (sample_lib project_bad_value) (sample_fs ''<Class/>'') ''output.xml'' = Inl e \<and>
       main (sample_lib project_bad_value) (sample_fs ''<Class/>'') ''output.xml'' =
         Inr [Print (''Error processing XML file: '' @ exc_str (sample_lib project_bad_value) e),
              PrintExc e]"
proof -
  have h1: "sample_fs ''<Class/>'' ''output.xml'' = Readable ''<Class/>''"
    by (simp add: sample_fs_def)
  have h2: "xml_parse (sample_lib project_bad_value) ''<Class/>'' = Inr project_bad_value"
    by (simp add: sample_lib_def)
  have h3: "method_with (List [metric_entry ''Ci'' ''abc'', metric_entry ''VG'' ''4''])
              \<in> set (method_nodes project_bad_value)"
    by (simp add: method_nodes_project_bad_value)
  have h4: "Dict [(''@name'', Str ''Ci''), (''@value'', Str ''abc'')]
              \<in> set (metric_entries (method_with (List [metric_entry ''Ci'' ''abc'', metric_entry ''VG'' ''4''])))"
    by (simp add: metric_entries_def method_with_def metric_entry_def)
  have h5: "map_of [(''@name'', Str ''Ci''), (''@value'', Str ''abc'')] ''@name'' = Some (Str ''Ci'')"
    by simp
  have h6: "''Ci'' \<in> set recognized_names"
    by (simp add: recognized_names_def)
  have h7: "map_of [(''@name'', Str ''Ci''), (''@value'', Str ''abc'')] ''@value'' = Some (Str ''abc'')"
    by simp
  have h8: "float_of (sample_lib project_bad_value) ''abc'' = None"
    by (simp add: sample_lib_def sample_float_simps)
  show ?thesis
    by (rule non_numeric_value_aborts [where fs = "sample_fs ''<Class/>''" and xml_file = "''output.xml''",
          OF h1 h2 h3 h4 h5 h6 h7 h8])
qed




lemma compute_results_total:
  "compute_results lib metrics = Inr results \<Longrightarrow>
     total_methods results = length (mccabe_cyclomatic_complexity metrics)"
  by (auto simp: compute_results_def Let_def split: if_splits sum.splits)

lemma parse_jasome_xml_InrD:
  assumes "parse_jasome_xml lib fs xml_file = Inr (results, metrics)"
  shows "path_exists (fs xml_file) = Inr True" and "compute_results lib metrics = Inr results"
  using assms by (auto simp: parse_jasome_xml_def split: file_state.splits sum.splits)

lemma report_head_total:
  "(report_head lib results @ rest) ! 3 =
     CHR 0x0A # ''Total Methods Analyzed: '' @ str_nat (total_methods results)"
  by (simp add: report_head_def numeral_3_eq_3)

text \<open>
  C5. Whenever \<open>parse_jasome_xml\<close> returns, the total method count it returns is the
  length of the VG list, and that is the number \<open>main\<close> prints on its fourth line.
\<close>

theorem total_methods_is_vg_length:
  assumes "parse_jasome_xml lib fs xml_file = Inr (results, metrics)"
  shows "total_methods results = length (mccabe_cyclomatic_complexity metrics) \<and>
         (\<exists>evs. main lib fs xml_file = Inr evs \<and>
            evs ! 3 = Print (CHR 0x0A # ''Total Methods Analyzed: ''
                               @ str_nat (length (mccabe_cyclomatic_complexity metrics))))"
proof -
  from assms have nm: "path_exists (fs xml_file) = Inr True" and cr: "compute_results lib metrics = Inr results"
    by (rule parse_jasome_xml_InrD)+
  from cr have t: "total_methods results = length (mccabe_cyclomatic_complexity metrics)"
    by (rule compute_results_total)
  obtain ls r where d: "display_results lib results metrics = (ls, r)"
    by (cases "display_results lib results metrics")
  then obtain rest where ls: "ls = report_head lib results @ rest"
    by (auto simp: display_results_def split: if_splits prod.splits)
  have l3: "3 < length ls" by (simp add: ls report_head_def)
  have "ls ! 3 = CHR 0x0A # ''Total Methods Analyzed: '' @ str_nat (total_methods results)"
    unfolding ls by (rule report_head_total)
  with t have line: "ls ! 3 = CHR 0x0A # ''Total Methods Analyzed: ''
      @ str_nat (length (mccabe_cyclomatic_complexity metrics))"
    by simp
  have "\<exists>evs. main lib fs xml_file = Inr evs \<and> evs ! 3 = Print (ls ! 3)"
  proof (cases r)
    case None
    with nm assms d have "main lib fs xml_file = Inr (map Print ls)"
      by (simp add: main_def)
    moreover have "map Print ls ! 3 = Print (ls ! 3)" using l3 by simp
    ultimately show ?thesis by blast
  next
    case (Some e)
    with nm assms d have "main lib fs xml_file = Inr (map Print ls @ report_exception lib e)"
      by (simp add: main_def)
    moreover have "(map Print ls @ report_exception lib e) ! 3 = Print (ls ! 3)"
      using l3 by (simp add: nth_append)
    ultimately show ?thesis by blast
  qed
  with t line show ?thesis by simp
qed

lemma extract_project_two_vg:
  "extract_method_metrics (sample_lib data) project_two_vg empty_metrics =
     Inr \<lparr>mccabe_cyclomatic_complexity = [3, 5], system_complexity = [1],
          data_complexity = [2], total_lines_of_code = [9]\<rparr>"
  by (simp add: project_two_vg_def method_two_vg_def class_with_def method_with_def metric_entry_def
      visit_methods_def process_method_def process_metric_def empty_metrics_def
      sample_lib_def sample_float_simps)

lemma parse_project_two_vg:
  "parse_jasome_xml (sample_lib project_two_vg) (sample_fs ''<Class/>'') ''output.xml'' =
     Inr (\<lparr>total_methods = 2, avg_mccabe_cyclomatic_complexity = PyFloat 4,
            avg_system_complexity = PyFloat 1, avg_data_complexity = PyFloat 2,
            avg_total_lines_of_code = PyFloat 9\<rparr>,
          \<lparr>mccabe_cyclomatic_complexity = [3, 5], system_complexity = [1],
            data_complexity = [2], total_lines_of_code = [9]\<rparr>)"
proof -
  have h1: "sample_fs ''<Class/>'' ''output.xml'' = Readable ''<Class/>''"
    by (simp add: sample_fs_def)
  have h2: "xml_parse (sample_lib project_two_vg) ''<Class/>'' = Inr project_two_vg"
    by (simp add: sample_lib_def)
  show ?thesis
    unfolding parse_jasome_xml_Readable [where fs = "sample_fs ''<Class/>''" and xml_file = "''output.xml''",
        OF h1 h2] extract_project_two_vg
    by (simp add: compute_results_def py_avg_def sample_lib_def)
qed

theorem total_methods_is_vg_length_witness:
  "length (method_nodes project_two_vg) = 1 \<and>
   total_methods \<lparr>total_methods = 2, avg_mccabe_cyclomatic_complexity = PyFloat (4::int),
            avg_system_complexity = PyFloat 1, avg_data_complexity = PyFloat 2,
            avg_total_lines_of_code = PyFloat 9\<rparr>
     = length (mccabe_cyclomatic_complexity \<lparr>mccabe_cyclomatic_complexity = [3, 5::int],
            system_complexity = [1], data_complexity = [2], total_lines_of_code = [9]\<rparr>) \<and>
   (\<exists>evs. main (sample_lib project_two_vg) (sample_fs ''<Class/>'') ''output.xml'' = Inr evs \<and>
      evs ! 3 = Print (CHR 0x0A # ''Total Methods Analyzed: 2''))"
proof -
  have n: "length (method_nodes project_two_vg) = 1"
    by (simp add: method_nodes_def project_two_vg_def method_two_vg_def class_with_def
        method_with_def metric_entry_def)
  have s: "str_nat (Suc (Suc 0)) = ''2''"
    by (subst str_nat.simps) (simp add: digit_char_def)
  from total_methods_is_vg_length [where fs = "sample_fs ''<Class/>''" and xml_file = "''output.xml''",
      OF parse_project_two_vg] n
  show ?thesis by (simp add: s)
qed

text \<open>
  C10. A metric entry with a recognised name and no \<^verbatim>\<open>@value\<close> key raises nothing: the
  value read is the string \<^verbatim>\<open>0\<close>, and what \<^verbatim>\<open>float\<close> makes of it goes to the end of the
  list of that name. The same entry with a value that \<^verbatim>\<open>float\<close> rejects raises
  \<^verbatim>\<open>ValueError\<close>.
\<close>

theorem missing_value_defaults_to_zero:
  assumes "map_of kvs ''@value'' = None"
    and "map_of kvs ''@name'' = Some (Str name)"
    and "name \<in> set recognized_names"
    and "float_of lib ''0'' = Some zero"
  shows "py_get (Dict kvs) ''@value'' (Str ''0'') = Inr (Str ''0'') \<and>
         process_metric lib (Dict kvs) m = Inr (append_sample name zero m) \<and>
         (\<forall>s. float_of lib s = None \<longrightarrow>
            process_metric lib (Dict ((''@value'', Str s) # kvs)) m = Inl (ValueError s))"
proof -
  have a: "py_get (Dict kvs) ''@value'' (Str ''0'') = Inr (Str ''0'')"
    using assms(1) by simp
  have b: "process_metric lib (Dict kvs) m = Inr (append_sample name zero m)"
    using assms by (auto simp: process_metric_def append_sample_def recognized_names_def)
  have c: "process_metric lib (Dict ((''@value'', Str s) # kvs)) m = Inl (ValueError s)"
    if "float_of lib s = None" for s
  proof (rule process_metric_bad_value [OF _ assms(3) _ that])
    show "map_of ((''@value'', Str s) # kvs) ''@name'' = Some (Str name)"
      using assms(2) by simp
    show "map_of ((''@value'', Str s) # kvs) ''@value'' = Some (Str s)"
      by simp
  qed
  from a b c show ?thesis by blast
qed

theorem missing_value_defaults_to_zero_witness:
  "process_metric (sample_lib PyNone) (Dict [(''@name'', Str ''Di'')])
     \<lparr>mccabe_cyclomatic_complexity = [3], system_complexity = [],
      data_complexity = [7], total_lines_of_code = []\<rparr>
   = Inr \<lparr>mccabe_cyclomatic_complexity = [3], system_complexity = [],
          data_complexity = [7, 0], total_lines_of_code = []\<rparr> \<and>
   process_metric (sample_lib PyNone) (Dict [(''@value'', Str ''abc''), (''@name'', Str ''Di'')])
     \<lparr>mccabe_cyclomatic_complexity = [3], system_complexity = [],
      data_complexity = [7], total_lines_of_code = []\<rparr>
   = Inl (ValueError ''abc'')"
proof -
  have h1: "map_of [(''@name'', Str ''Di'')] ''@value'' = None" by simp
  have h2: "map_of [(''@name'', Str ''Di'')] ''@name'' = Some (Str ''Di'')" by simp
  have h3: "''Di'' \<in> set recognized_names" by (simp add: recognized_names_def)
  have h4: "float_of (sample_lib PyNone) ''0'' = Some 0"
    by (simp add: sample_lib_def sample_float_simps)
  have h5: "float_of (sample_lib PyNone) ''abc'' = None"
    by (simp add: sample_lib_def sample_float_simps)
  from missing_value_defaults_to_zero [OF h1 h2 h3 h4] h5
  show ?thesis by (simp add: append_sample_def)
qed

section \<open>Single entry or sequence of one entry\<close>

lemma extract_leaf:
  "\<not> (is_dict v \<or> is_list v) \<Longrightarrow> extract_method_metrics lib v m = Inr m"
  by (cases v) simp_all

lemma extract_children_Cons:
  "extract_children lib ((k, v) # rest) m =
     (case extract_method_metrics lib v m of
        Inl e \<Rightarrow> Inl e
      | Inr m' \<Rightarrow> extract_children lib rest m')"
  by (cases "is_dict v \<or> is_list v") (simp_all add: extract_leaf)

lemma extract_children_map:
  assumes "\<And>k v m. (k, v) \<in> set kvs \<Longrightarrow>
             extract_method_metrics lib (g k v) m = extract_method_metrics lib v m"
  shows "extract_children lib (map (\<lambda>(k, v). (k, g k v)) kvs) m = extract_children lib kvs m"
  using assms
proof (induction kvs arbitrary: m)
  case Nil
  show ?case by simp
next
  case (Cons kv rest)
  obtain k v where kv: "kv = (k, v)" by (cases kv)
  have "(k, v) \<in> set (kv # rest)" by (simp add: kv)
  then have v: "extract_method_metrics lib (g k v) m' = extract_method_metrics lib v m'" for m'
    by (rule Cons.prems)
  have rest: "extract_children lib (map (\<lambda>(k, v). (k, g k v)) rest) m' = extract_children lib rest m'" for m'
  proof (rule Cons.IH)
    fix k' v' m''
    assume "(k', v') \<in> set rest"
    then have "(k', v') \<in> set (kv # rest)" by simp
    then show "extract_method_metrics lib (g k' v') m'' = extract_method_metrics lib v' m''"
      by (rule Cons.prems)
  qed
  have "extract_children lib ((k, g k v) # map (\<lambda>(k, v). (k, g k v)) rest) m =
        extract_children lib ((k, v) # rest) m"
    unfolding extract_children_Cons by (simp add: v rest split: sum.splits)
  then show ?case by (simp add: kv)
qed

lemma extract_items_map:
  assumes "\<And>x m. x \<in> set xs \<Longrightarrow>
             extract_method_metrics lib (f x) m = extract_method_metrics lib x m"
  shows "extract_items lib (map f xs) m = extract_items lib xs m"
  using assms
proof (induction xs arbitrary: m)
  case Nil
  show ?case by simp
next
  case (Cons x rest)
  have "x \<in> set (x # rest)" by simp
  then have x: "extract_method_metrics lib (f x) m' = extract_method_metrics lib x m'" for m'
    by (rule Cons.prems)
  have rest: "extract_items lib (map f rest) m' = extract_items lib rest m'" for m'
  proof (rule Cons.IH)
    fix y m''
    assume "y \<in> set rest"
    then have "y \<in> set (x # rest)" by simp
    then show "extract_method_metrics lib (f y) m'' = extract_method_metrics lib y m''"
      by (rule Cons.prems)
  qed
  show ?case by (simp add: x rest split: sum.splits)
qed

lemma process_metrics_map:
  assumes "\<And>e m. process_metric lib (f e) m = process_metric lib e m"
  shows "process_metrics lib (map f es) m = process_metrics lib es m"
  by (induction es arbitrary: m) (simp_all add: assms split: sum.splits)

lemma process_methods_map:
  assumes "\<And>x m. process_method lib (f x) m = process_method lib x m"
  shows "process_methods lib (map f ms) m = process_methods lib ms m"
  by (induction ms arbitrary: m) (simp_all add: assms split: sum.splits)

lemma wrap_items_map: "wrap_items xs = map wrap_singles xs"
  by (induction xs) simp_all

lemma wrap_children_keys: "map fst (wrap_children kvs) = map fst kvs"
  by (induction kvs) auto

lemma wrap_children_map_of:
  "map_of (wrap_children kvs) k =
     map_option (\<lambda>v. if (k = ''Method'' \<or> k = ''Metric'') \<and> \<not> is_list v
                      then List [wrap_singles v] else wrap_singles v) (map_of kvs k)"
  by (induction kvs) auto

lemma wrap_singles_Str [simp]:
  "wrap_singles v = Str s \<longleftrightarrow> v = Str s" "Str s = wrap_singles v \<longleftrightarrow> v = Str s"
  by (cases v; auto)+

lemma as_list_not_list: "\<not> is_list v \<Longrightarrow> as_list v = [v]"
  by (cases v) simp_all

lemma wrap_singles_is_list [simp]: "is_list (wrap_singles v) = is_list v"
  by (cases v) simp_all

lemma as_list_wrap_singles: "as_list (wrap_singles v) = map wrap_singles (as_list v)"
  by (cases v) (simp_all add: wrap_items_map)

lemma py_contains_wrap_singles: "py_contains k (wrap_singles v) = py_contains k v"
  by (cases v) (auto simp: wrap_children_keys wrap_items_map image_iff)

lemma py_float_wrap_singles: "py_float lib (wrap_singles v) = py_float lib v"
  by (cases v) simp_all

lemma py_get_wrap_singles:
  assumes "k \<noteq> ''Method''" and "k \<noteq> ''Metric''"
  shows "py_get (wrap_singles e) k (Str d) =
           (case py_get e k (Str d) of Inl err \<Rightarrow> Inl err | Inr v \<Rightarrow> Inr (wrap_singles v))"
  using assms by (cases e) (auto simp: wrap_children_map_of split: option.splits)

lemma process_metric_wrap_singles:
  "process_metric lib (wrap_singles e) m = process_metric lib e m"
  unfolding process_metric_def
  by (simp add: py_get_wrap_singles py_float_wrap_singles split: sum.splits)

lemma py_getitem_Metrics_wrap:
  "py_getitem (wrap_singles mth) ''Metrics'' =
     (case py_getitem mth ''Metrics'' of Inl err \<Rightarrow> Inl err | Inr v \<Rightarrow> Inr (wrap_singles v))"
  by (cases mth) (auto simp: wrap_children_map_of split: option.splits)

lemma py_getitem_Metric_wrap:
  "(case py_getitem (wrap_singles ms) ''Metric'' of Inl err \<Rightarrow> Inl err | Inr v \<Rightarrow> Inr (as_list v)) =
     (case py_getitem ms ''Metric'' of Inl err \<Rightarrow> Inl err | Inr v \<Rightarrow> Inr (map wrap_singles (as_list v)))"
  by (cases ms) (auto simp: wrap_children_map_of as_list_wrap_singles as_list_not_list split: option.splits)


lemma wrap_children_map: "wrap_children kvs = map (\<lambda>(k, v). (k, wrap_value k v)) kvs"
  by (induction kvs) (auto simp: wrap_value_def)

lemma process_method_wrap_singles:
  "process_method lib (wrap_singles mth) m = process_method lib mth m"
proof (cases "py_getitem mth ''Metrics''")
  case (Inl err)
  then show ?thesis
    unfolding process_method_def
    by (simp add: py_contains_wrap_singles py_getitem_Metrics_wrap split: sum.splits bool.splits)
next
  case (Inr ms)
  have "process_metrics lib (as_list v') m = process_metrics lib (as_list v) m"
    if "py_getitem (wrap_singles ms) ''Metric'' = Inr v'" and "py_getitem ms ''Metric'' = Inr v" for v v'
  proof -
    from py_getitem_Metric_wrap [of ms] that have "as_list v' = map wrap_singles (as_list v)"
      by simp
    then show ?thesis
      by (simp add: process_metrics_map [where f = wrap_singles, OF process_metric_wrap_singles])
  qed
  moreover have "(\<exists>v'. py_getitem (wrap_singles ms) ''Metric'' = Inr v') \<longleftrightarrow>
                 (\<exists>v. py_getitem ms ''Metric'' = Inr v)"
    using py_getitem_Metric_wrap [of ms] by (auto split: sum.splits)
  moreover have "py_getitem (wrap_singles ms) ''Metric'' = Inl e \<Longrightarrow> py_getitem ms ''Metric'' = Inl e" for e
    using py_getitem_Metric_wrap [of ms] by (auto split: sum.splits)
  ultimately show ?thesis
    unfolding process_method_def
    using Inr
    by (auto simp: py_contains_wrap_singles py_getitem_Metrics_wrap split: sum.splits bool.splits)
qed

lemma methods_of_wrap_singles:
  "methods_of (wrap_singles d) = map wrap_singles (methods_of d)"
  by (cases d) (auto simp: wrap_children_map_of as_list_wrap_singles as_list_not_list
      split: option.splits)

lemma visit_methods_wrap_children:
  "visit_methods lib (wrap_children kvs) m = visit_methods lib kvs m"
proof -
  have "visit_methods lib (wrap_children kvs) m =
        process_methods lib (methods_of (wrap_singles (Dict kvs))) m"
    by (simp add: visit_methods_methods_of)
  also have "\<dots> = process_methods lib (methods_of (Dict kvs)) m"
    unfolding methods_of_wrap_singles
    by (rule process_methods_map) (rule process_method_wrap_singles)
  finally show ?thesis by (simp add: visit_methods_methods_of)
qed

lemma extract_wrap_singles:
  "extract_method_metrics lib (wrap_singles node) m = extract_method_metrics lib node m"
proof (induction node arbitrary: m)
  case (Str s)
  show ?case by simp
next
  case PyNone
  show ?case by simp
next
  case (List xs)
  have "extract_items lib (map wrap_singles xs) m = extract_items lib xs m"
    by (rule extract_items_map) (rule List.IH)
  then show ?case by (simp add: wrap_items_map)
next
  case (Dict kvs)
  have "extract_children lib (map (\<lambda>(k, v). (k, wrap_value k v)) kvs) m' =
        extract_children lib kvs m'" for m'
  proof (rule extract_children_map)
    fix k v m''
    assume "(k, v) \<in> set kvs"
    moreover have "v \<in> Basic_BNFs.snds (k, v)" by simp
    ultimately have IH: "extract_method_metrics lib (wrap_singles v) m'' =
                         extract_method_metrics lib v m''"
      by (rule Dict.IH)
    show "extract_method_metrics lib (wrap_value k v) m'' = extract_method_metrics lib v m''"
      by (simp add: wrap_value_def IH split: sum.splits)
  qed
  then show ?case
    by (simp add: wrap_children_map [symmetric] visit_methods_wrap_children split: sum.splits)
qed

text \<open>
  C6. Two trees that differ only in writing the value of a \<^verbatim>\<open>Method\<close> key or of a
  \<^verbatim>\<open>Metric\<close> key as a single entry or as a sequence of that one entry give the same
  outcome of the walk: the same four lists, or the same exception.
\<close>

theorem single_or_singleton_same:
  assumes "wrap_singles t1 = wrap_singles t2"
  shows "extract_method_metrics lib t1 m = extract_method_metrics lib t2 m"
proof -
  have "extract_method_metrics lib t1 m = extract_method_metrics lib (wrap_singles t1) m"
    by (rule extract_wrap_singles [symmetric])
  also have "\<dots> = extract_method_metrics lib (wrap_singles t2) m"
    by (simp add: assms)
  also have "\<dots> = extract_method_metrics lib t2 m"
    by (rule extract_wrap_singles)
  finally show ?thesis .
qed

theorem single_or_singleton_same_witness:
  "extract_method_metrics (sample_lib PyNone)
     (class_with (method_with (metric_entry ''VG'' ''3''))) empty_metrics =
   extract_method_metrics (sample_lib PyNone)
     (class_with (List [method_with (List [metric_entry ''VG'' ''3''])])) empty_metrics"
proof -
  have h: "wrap_singles (class_with (method_with (metric_entry ''VG'' ''3''))) =
           wrap_singles (class_with (List [method_with (List [metric_entry ''VG'' ''3''])]))"
    by (simp add: class_with_def method_with_def metric_entry_def)
  then show ?thesis by (rule single_or_singleton_same)
qed

section \<open>Removing unrecognized metric entries\<close>





lemma remove_entries_Str [simp]:
  "remove_entries p v = Str s \<longleftrightarrow> v = Str s" "Str s = remove_entries p v \<longleftrightarrow> v = Str s"
  by (cases v; auto)+

lemma remove_entries_is_list [simp]: "is_list (remove_entries p v) = is_list v"
  by (cases v) simp_all


















section \<open>The lists are the samples of the tree\<close>









lemma metrics_of_samples_Nil [simp]: "metrics_of_samples [] = empty_metrics"
  by (simp add: metrics_of_samples_def empty_metrics_def values_of_def)













section \<open>Deleting unrecognized metric entries from the file\<close>





lemma collapse_not_list [simp]: "is_list (collapse kvs) = False"
  by (induction kvs rule: collapse.induct) simp_all

lemma as_parsed_is_list [simp]: "is_list (as_parsed v) = is_list v"
  by (cases v) simp_all











end
